theory Spec2Isabelle
  imports Complex_Main "HOL-Library.Word"
begin

unbundle bit_operations_syntax

section \<open>The load generator of locustfile.py\<close>

text \<open>
  The file defines one class, \<open>CacheUser\<close>, whose class body builds two pools and whose
  task \<open>mixed_load\<close> sends either a write or a read to the service under test.
  The module's three constants are the fields of a configuration record, so that the
  scenarios with another ratio or pool size can be stated; \<open>default_config\<close> holds the
  values written in the file.
\<close>

subsection \<open>Configuration\<close>

record config =
  KEY_POOL_SIZE :: nat
  VALUE_LENGTH :: nat
  PUT_RATIO :: rat

definition default_config :: config where
  "default_config = \<lparr>KEY_POOL_SIZE = 10000, VALUE_LENGTH = 256, PUT_RATIO = 1 / 2\<rparr>"

subsection \<open>Outcomes of the library's random sources\<close>

text \<open>
  The random module, \<open>uuid.uuid4\<close> and \<open>os.urandom\<close> belong to the Python library, not
  to the file. Their outcomes are inputs of the model.

  \<open>random.random()\<close> returns \<open>k / 2^53\<close> for a 53-bit integer \<open>k\<close>, a value of the
  half-open interval from 0 to 1. Such a value and the ratio are binary fractions, and
  Python compares them exactly, so both are rationals here.
\<close>

definition random_random :: "53 word \<Rightarrow> rat" where
  "random_random k = of_nat (unat k) / 2 ^ 53"

datatype error = IndexError

text \<open>Python's \<open>seq[i]\<close> for an index that is not negative.\<close>

definition getitem :: "'a list \<Rightarrow> nat \<Rightarrow> error + 'a" where
  "getitem seq i = (if i < length seq then Inr (seq ! i) else Inl IndexError)"

text \<open>
  \<open>random.choice(seq)\<close> is \<open>seq[i]\<close> for an index \<open>i\<close> drawn below \<open>len(seq)\<close>, and
  raises IndexError on an empty sequence. The second argument is the outcome of the
  index draw; an index that is not a position of the sequence raises as \<open>seq[i]\<close> does.
\<close>

definition choice :: "'a list \<Rightarrow> nat \<Rightarrow> error + 'a" where
  "choice seq i = getitem seq i"

text \<open>
  A list comprehension \<open>[f(i) for i in range(n)]\<close> whose element expression can raise:
  the elements are computed in order and the first exception ends the comprehension.
\<close>

fun collect :: "(nat \<Rightarrow> error + 'a) \<Rightarrow> nat \<Rightarrow> error + 'a list" where
  "collect f 0 = Inr []"
| "collect f (Suc n) =
     (case collect f n of
        Inl e \<Rightarrow> Inl e
      | Inr xs \<Rightarrow> (case f n of Inl e \<Rightarrow> Inl e | Inr x \<Rightarrow> Inr (xs @ [x])))"

text \<open>
  \<open>random.choices(population, k=k)\<close> without weights is
  \<open>[population[floor(random() * n)] for i in _repeat(None, k)]\<close>. The product is a
  floating-point one, so the index itself is taken as the outcome: \<open>rnd j\<close> is the
  index computed for the \<open>j\<close>-th element.
\<close>

definition choices :: "'a list \<Rightarrow> (nat \<Rightarrow> nat) \<Rightarrow> nat \<Rightarrow> error + 'a list" where
  "choices population rnd k = collect (\<lambda>j. getitem population (rnd j)) k"

text \<open>The outcomes of the draws one call of \<open>mixed_load\<close> can make.\<close>

record draws =
  coin :: "53 word"
  key_draw :: nat
  value_draw :: nat

subsection \<open>Requests and the user\<close>

datatype http_method = GET | POST

text \<open>
  What the harness's HTTP client is called with: the method, the URL, the \<open>json\<close>
  argument (a dictionary of two entries, kept in the order written, or absent) and the
  \<open>name\<close> argument under which the harness files the request.
\<close>

record request =
  req_method :: http_method
  req_url :: string
  req_json :: "(string \<times> string) list option"
  req_name :: string

text \<open>
  A user sees the two class attributes and owns a client; \<open>client\<close> is the sequence of
  calls made on it so far, oldest first.
\<close>

record cache_user =
  key_pool :: "string list"
  value_pool :: "string list"
  client :: "request list"

definition client_post :: "string \<Rightarrow> (string \<times> string) list \<Rightarrow> string \<Rightarrow> cache_user \<Rightarrow> cache_user" where
  "client_post u body nm self =
     self\<lparr>client := client self @
       [\<lparr>req_method = POST, req_url = u, req_json = Some body, req_name = nm\<rparr>]\<rparr>"

definition client_get :: "string \<Rightarrow> string \<Rightarrow> cache_user \<Rightarrow> cache_user" where
  "client_get u nm self =
     self\<lparr>client := client self @
       [\<lparr>req_method = GET, req_url = u, req_json = None, req_name = nm\<rparr>]\<rparr>"

subsection \<open>The task\<close>

definition put_request :: "cache_user \<Rightarrow> draws \<Rightarrow> error + cache_user" where
  "put_request self d =
     (case choice (key_pool self) (key_draw d) of
        Inl e \<Rightarrow> Inl e
      | Inr key \<Rightarrow>
          (case choice (value_pool self) (value_draw d) of
             Inl e \<Rightarrow> Inl e
           | Inr val \<Rightarrow>
               Inr (client_post ''/put'' [(''key'', key), (''value'', val)] ''/put'' self)))"

definition get_request :: "cache_user \<Rightarrow> draws \<Rightarrow> error + cache_user" where
  "get_request self d =
     (case choice (key_pool self) (key_draw d) of
        Inl e \<Rightarrow> Inl e
      | Inr key \<Rightarrow> Inr (client_get (''/get?key='' @ key) ''/get'' self))"

definition mixed_load :: "config \<Rightarrow> cache_user \<Rightarrow> draws \<Rightarrow> error + cache_user" where
  "mixed_load cfg self d =
     (if random_random (coin d) < PUT_RATIO cfg then put_request self d
      else get_request self d)"

text \<open>
  The harness calls the task again and again. An exception raised by a call is logged by
  the harness and the next call follows; the call raised before it reached the client,
  so the user is as it was.
\<close>

fun run :: "config \<Rightarrow> cache_user \<Rightarrow> draws list \<Rightarrow> cache_user" where
  "run cfg self [] = self"
| "run cfg self (d # ds) =
     (case mixed_load cfg self d of
        Inl e \<Rightarrow> run cfg self ds
      | Inr self' \<Rightarrow> run cfg self' ds)"

text \<open>The requests a call hands to the client: what it appends to the client's sequence.\<close>

definition emitted :: "config \<Rightarrow> cache_user \<Rightarrow> draws \<Rightarrow> request list" where
  "emitted cfg self d =
     (case mixed_load cfg self d of
        Inl e \<Rightarrow> []
      | Inr self' \<Rightarrow> drop (length (client self)) (client self'))"

subsection \<open>The pools\<close>

text \<open>
  The constants of the string module: \<open>printable\<close> is
  \<open>digits + ascii_letters + punctuation + whitespace\<close>. The punctuation is the ASCII
  range of codes 33 to 47, 58 to 64, 91 to 96 and 123 to 126, in this order; the
  whitespace is space, tab, line feed, carriage return, vertical tab, form feed.
\<close>

definition string_digits :: string where
  "string_digits = ''0123456789''"

definition string_ascii_lowercase :: string where
  "string_ascii_lowercase = ''abcdefghijklmnopqrstuvwxyz''"

definition string_ascii_uppercase :: string where
  "string_ascii_uppercase = ''ABCDEFGHIJKLMNOPQRSTUVWXYZ''"

definition string_ascii_letters :: string where
  "string_ascii_letters = string_ascii_lowercase @ string_ascii_uppercase"

definition string_punctuation :: string where
  "string_punctuation =
     [CHR 0x21, CHR 0x22, CHR 0x23, CHR 0x24, CHR 0x25, CHR 0x26, CHR 0x27, CHR 0x28,
      CHR 0x29, CHR 0x2A, CHR 0x2B, CHR 0x2C, CHR 0x2D, CHR 0x2E, CHR 0x2F,
      CHR 0x3A, CHR 0x3B, CHR 0x3C, CHR 0x3D, CHR 0x3E, CHR 0x3F, CHR 0x40,
      CHR 0x5B, CHR 0x5C, CHR 0x5D, CHR 0x5E, CHR 0x5F, CHR 0x60,
      CHR 0x7B, CHR 0x7C, CHR 0x7D, CHR 0x7E]"

definition string_whitespace :: string where
  "string_whitespace = [CHR 0x20, CHR 0x09, CHR 0x0A, CHR 0x0D, CHR 0x0B, CHR 0x0C]"

definition string_printable :: string where
  "string_printable =
     string_digits @ string_ascii_letters @ string_punctuation @ string_whitespace"

text \<open>
  Indexing a Python string gives strings of one character; \<open>''.join\<close> concatenates them.
\<close>

definition join :: "char list \<Rightarrow> string" where
  "join cs = concat (map (\<lambda>c. [c]) cs)"

text \<open>
  \<open>uuid.uuid4()\<close> is \<open>UUID(bytes=os.urandom(16), version=4)\<close>: the 16 bytes are read as
  one big-endian integer, in which the constructor sets the variant and the version:
  \<^verbatim>\<open>
    int &= ~(0xc000 << 48)
    int |= 0x8000 << 48
    int &= ~(0xf000 << 64)
    int |= version << 76
  \<close>
  The argument is the integer read from the 16 bytes.
\<close>

definition uuid4 :: "128 word \<Rightarrow> 128 word" where
  "uuid4 r =
     (let i1 = r AND NOT (push_bit 48 0xc000);
          i2 = i1 OR push_bit 48 0x8000;
          i3 = i2 AND NOT (push_bit 64 0xf000);
          i4 = i3 OR push_bit 76 4
      in i4)"

text \<open>
  The bits of the 16 random bytes that \<open>uuid4\<close> leaves as they are: all but the two
  variant bits and the four version bits.
\<close>

definition kept_bits :: "128 word \<Rightarrow> 128 word" where
  "kept_bits r = r AND NOT (push_bit 48 0xc000) AND NOT (push_bit 64 0xf000)"

definition hex_char :: "nat \<Rightarrow> char" where
  "hex_char d = ''0123456789abcdef'' ! (d mod 16)"

text \<open>
  The \<open>w\<close> lowest hexadecimal digits, most significant first: what \<open>'%032x' % n\<close> is for
  \<open>w = 32\<close> and an integer below \<open>16^32\<close>, as the integer of a UUID is.
\<close>

fun hex_pad :: "nat \<Rightarrow> nat \<Rightarrow> string" where
  "hex_pad 0 n = []"
| "hex_pad (Suc w) n = hex_pad w (n div 16) @ [hex_char (n mod 16)]"

definition format_032x :: "nat \<Rightarrow> string" where
  "format_032x n = hex_pad 32 n"

text \<open>The slice \<open>x[a:b]\<close> for indices \<open>a \<le> b\<close> that are not negative.\<close>

definition slice :: "nat \<Rightarrow> nat \<Rightarrow> 'a list \<Rightarrow> 'a list" where
  "slice a b xs = take (b - a) (drop a xs)"

text \<open>
  \<open>str\<close> of a UUID:
  \<^verbatim>\<open>
    x = '%032x' % self.int
    return f'{x[:8]}-{x[8:12]}-{x[12:16]}-{x[16:20]}-{x[20:]}'
  \<close>
\<close>

definition UUID_str :: "128 word \<Rightarrow> string" where
  "UUID_str u =
     (let x = format_032x (unat u)
      in take 8 x @ ''-'' @ slice 8 12 x @ ''-'' @ slice 12 16 x @ ''-'' @ slice 16 20 x
           @ ''-'' @ drop 20 x)"

text \<open>
  What the class body draws: \<open>urandom16 i\<close> is the integer of the 16 bytes that
  \<open>os.urandom\<close> returns for the \<open>i\<close>-th key, \<open>printable_draw i j\<close> the index computed for
  the \<open>j\<close>-th character of the \<open>i\<close>-th value.
\<close>

record entropy =
  urandom16 :: "nat \<Rightarrow> 128 word"
  printable_draw :: "nat \<Rightarrow> nat \<Rightarrow> nat"

text \<open>\<open>key_pool = [str(uuid.uuid4()) for _ in range(KEY_POOL_SIZE)]\<close>\<close>

definition make_key_pool :: "config \<Rightarrow> entropy \<Rightarrow> string list" where
  "make_key_pool cfg en =
     map (\<lambda>i. UUID_str (uuid4 (urandom16 en i))) [0..<KEY_POOL_SIZE cfg]"

text \<open>
  \<open>value_pool = [''.join(random.choices(string.printable, k=VALUE_LENGTH))
     for _ in range(KEY_POOL_SIZE)]\<close>
\<close>

definition make_value_pool :: "config \<Rightarrow> entropy \<Rightarrow> error + string list" where
  "make_value_pool cfg en =
     collect
       (\<lambda>i. case choices string_printable (printable_draw en i) (VALUE_LENGTH cfg) of
               Inl e \<Rightarrow> Inl e
             | Inr cs \<Rightarrow> Inr (join cs))
       (KEY_POOL_SIZE cfg)"

text \<open>
  The class body runs once, when the module is loaded; a user created afterwards sees
  the two pools and has made no call yet.
\<close>

definition new_user :: "config \<Rightarrow> entropy \<Rightarrow> error + cache_user" where
  "new_user cfg en =
     (case make_value_pool cfg en of
        Inl e \<Rightarrow> Inl e
      | Inr vs \<Rightarrow> Inr \<lparr>key_pool = make_key_pool cfg en, value_pool = vs, client = []\<rparr>)"

text \<open>The index draws of the class body are outcomes the library can give.\<close>

definition entropy_ok :: "config \<Rightarrow> entropy \<Rightarrow> bool" where
  "entropy_ok cfg en \<longleftrightarrow>
     (\<forall>i < KEY_POOL_SIZE cfg. \<forall>j < VALUE_LENGTH cfg.
        printable_draw en i j < length string_printable)"

text \<open>The draws are outcomes the library can give for these pools.\<close>

definition draws_ok :: "cache_user \<Rightarrow> draws \<Rightarrow> bool" where
  "draws_ok self d \<longleftrightarrow>
     key_draw d < length (key_pool self) \<and> value_draw d < length (value_pool self)"

subsection \<open>Observations on requests\<close>

text \<open>The requests that a run of calls hands to the client, oldest first.\<close>

definition sent :: "config \<Rightarrow> cache_user \<Rightarrow> draws list \<Rightarrow> request list" where
  "sent cfg self ds = drop (length (client self)) (client (run cfg self ds))"

definition is_post_put :: "request \<Rightarrow> bool" where
  "is_post_put r \<longleftrightarrow> req_method r = POST \<and> req_url r = ''/put''"

definition is_get :: "request \<Rightarrow> bool" where
  "is_get r \<longleftrightarrow> req_method r = GET"

text \<open>
  The key a request carries: the \<open>key\<close> field of the body where there is a body, and
  otherwise what follows \<open>/get?key=\<close> in the URL. The value it carries: the \<open>value\<close>
  field of the body.
\<close>

definition request_key :: "request \<Rightarrow> string option" where
  "request_key r =
     (case req_json r of
        Some body \<Rightarrow> map_of body ''key''
      | None \<Rightarrow>
          (if take 9 (req_url r) = ''/get?key='' then Some (drop 9 (req_url r)) else None))"

definition request_value :: "request \<Rightarrow> string option" where
  "request_value r = (case req_json r of Some body \<Rightarrow> map_of body ''value'' | None \<Rightarrow> None)"

text \<open>
  How a URL of the form \<open>path?name=value&name=value\<close> is read: the path ends at the
  first question mark, the parameters are separated by ampersands, and a parameter's
  name ends at its first equals sign.
\<close>

fun split_on :: "char \<Rightarrow> string \<Rightarrow> string list" where
  "split_on c [] = [[]]"
| "split_on c (x # xs) =
     (if x = c then [] # split_on c xs
      else (case split_on c xs of [] \<Rightarrow> [[x]] | p # ps \<Rightarrow> (x # p) # ps))"

definition url_path :: "string \<Rightarrow> string" where
  "url_path u = takeWhile (\<lambda>c. c \<noteq> CHR ''?'') u"

definition url_query :: "string \<Rightarrow> string" where
  "url_query u = drop 1 (dropWhile (\<lambda>c. c \<noteq> CHR ''?'') u)"

definition query_params :: "string \<Rightarrow> (string \<times> string) list" where
  "query_params q =
     map (\<lambda>p. (takeWhile (\<lambda>c. c \<noteq> CHR ''='') p, drop 1 (dropWhile (\<lambda>c. c \<noteq> CHR ''='') p)))
       (split_on CHR ''&'' q)"

subsection \<open>Concrete inputs\<close>

text \<open>
  A user with pools of four entries, configurations of pool size 4 with a given ratio,
  and two outcomes of the draws: one whose uniform draw is 0 and one whose uniform draw
  is one half.
\<close>

definition ex_user :: cache_user where
  "ex_user = \<lparr>key_pool = [''k0'', ''k1'', ''k2'', ''k3''],
               value_pool = [''v0'', ''v1'', ''v2'', ''v3''], client = []\<rparr>"

definition ex_cfg :: "rat \<Rightarrow> config" where
  "ex_cfg ratio = \<lparr>KEY_POOL_SIZE = 4, VALUE_LENGTH = 2, PUT_RATIO = ratio\<rparr>"

definition ex_low :: draws where
  "ex_low = \<lparr>coin = 0, key_draw = 1, value_draw = 3\<rparr>"

definition ex_high :: draws where
  "ex_high = \<lparr>coin = 4503599627370496, key_draw = 2, value_draw = 0\<rparr>"

text \<open>
  Outcomes for the class body: the \<open>i\<close>-th 16 bytes are the number \<open>i\<close>, and the
  \<open>j\<close>-th character of the \<open>i\<close>-th value is drawn at position \<open>i + j\<close>. The user
  \<open>ex_pool_user\<close> is the one the class body makes from them for a pool size of 4 and
  values of length 2.
\<close>

definition ex_entropy :: entropy where
  "ex_entropy = \<lparr>urandom16 = (\<lambda>i. of_nat i), printable_draw = (\<lambda>i j. i + j)\<rparr>"

definition ex_pool_user :: cache_user where
  "ex_pool_user =
     \<lparr>key_pool = [''00000000-0000-4000-8000-000000000000'',
                  ''00000000-0000-4000-8000-000000000001'',
                  ''00000000-0000-4000-8000-000000000002'',
                  ''00000000-0000-4000-8000-000000000003''],
      value_pool = [''01'', ''12'', ''23'', ''34''], client = []\<rparr>"

text \<open>
  Outcomes in which \<open>os.urandom\<close> returns 16 zero bytes every time and every character
  is drawn at position 0.
\<close>

definition same_bytes :: "nat \<Rightarrow> 128 word" where
  "same_bytes i = 0"

definition first_printable :: "nat \<Rightarrow> nat \<Rightarrow> nat" where
  "first_printable i j = 0"

definition stuck_entropy :: entropy where
  "stuck_entropy = \<lparr>urandom16 = same_bytes, printable_draw = first_printable\<rparr>"

section \<open>Basic facts\<close>

lemma random_random_ge0: "0 \<le> random_random k"
  unfolding random_random_def
  by (rule divide_nonneg_nonneg) (simp_all only: of_nat_0_le_iff zero_le_power zero_le_numeral)

lemma random_random_less1: "random_random k < 1"
proof -
  have "unat k < 2 ^ 53"
    using unsigned_less [of k, where 'a = nat] by simp
  then have "(of_nat (unat k) :: rat) < of_nat (2 ^ 53)"
    by (simp only: of_nat_less_iff)
  then show ?thesis
    by (simp add: random_random_def)
qed

subsection \<open>Indexing and the two paths\<close>

lemma getitem_Inr_iff: "getitem xs i = Inr x \<longleftrightarrow> i < length xs \<and> x = xs ! i"
  by (auto simp: getitem_def)

lemma getitem_Inl_iff: "getitem xs i = Inl e \<longleftrightarrow> \<not> i < length xs"
  by (cases e) (auto simp: getitem_def)

lemma choice_Inr_iff: "choice xs i = Inr x \<longleftrightarrow> i < length xs \<and> x = xs ! i"
  by (simp add: choice_def getitem_Inr_iff)

lemma choice_in_range: "i < length xs \<Longrightarrow> choice xs i = Inr (xs ! i)"
  by (simp add: choice_def getitem_def)

lemma choice_empty: "choice [] i = Inl IndexError"
  by (simp add: choice_def getitem_def)

lemma put_request_Inr_iff:
  "put_request s d = Inr s' \<longleftrightarrow>
     key_draw d < length (key_pool s) \<and> value_draw d < length (value_pool s) \<and>
     s' = s\<lparr>client := client s @
            [\<lparr>req_method = POST, req_url = ''/put'',
              req_json = Some [(''key'', key_pool s ! key_draw d),
                               (''value'', value_pool s ! value_draw d)],
              req_name = ''/put''\<rparr>]\<rparr>"
  by (auto simp: put_request_def client_post_def choice_def getitem_def split: sum.splits)

lemma get_request_Inr_iff:
  "get_request s d = Inr s' \<longleftrightarrow>
     key_draw d < length (key_pool s) \<and>
     s' = s\<lparr>client := client s @
            [\<lparr>req_method = GET, req_url = ''/get?key='' @ key_pool s ! key_draw d,
              req_json = None, req_name = ''/get''\<rparr>]\<rparr>"
  by (auto simp: get_request_def client_get_def choice_def getitem_def split: sum.splits)

lemma mixed_load_frame:
  assumes "mixed_load cfg s d = Inr s'"
  shows "key_pool s' = key_pool s" and "value_pool s' = value_pool s"
    and "\<exists>r. client s' = client s @ [r]"
  using assms
  by (auto simp: mixed_load_def put_request_Inr_iff get_request_Inr_iff split: if_splits)

lemma run_key_pool: "key_pool (run cfg s ds) = key_pool s"
  by (induction ds arbitrary: s) (auto split: sum.splits dest: mixed_load_frame(1))

lemma run_value_pool: "value_pool (run cfg s ds) = value_pool s"
  by (induction ds arbitrary: s) (auto split: sum.splits dest: mixed_load_frame(2))

lemma run_client_prefix: "\<exists>rs. client (run cfg s ds) = client s @ rs"
proof (induction ds arbitrary: s)
  case Nil
  show ?case by simp
next
  case (Cons d ds)
  show ?case
  proof (cases "mixed_load cfg s d")
    case (Inl e)
    then show ?thesis using Cons.IH [of s] by simp
  next
    case (Inr s')
    from mixed_load_frame(3) [OF Inr] obtain r where r: "client s' = client s @ [r]" ..
    from Cons.IH [of s'] obtain rs where "client (run cfg s' ds) = client s' @ rs" ..
    with r Inr show ?thesis by simp
  qed
qed

lemma client_run: "client (run cfg s ds) = client s @ sent cfg s ds"
  using run_client_prefix [of cfg s ds] by (auto simp: sent_def)

lemma sent_Nil: "sent cfg s [] = []"
  by (simp add: sent_def)

lemma sent_Cons_Inl: "mixed_load cfg s d = Inl e \<Longrightarrow> sent cfg s (d # ds) = sent cfg s ds"
  by (simp add: sent_def)

lemma sent_Cons_Inr:
  assumes "mixed_load cfg s d = Inr s'"
  shows "sent cfg s (d # ds) = emitted cfg s d @ sent cfg s' ds"
proof -
  from mixed_load_frame(3) [OF assms] obtain r where r: "client s' = client s @ [r]" ..
  from run_client_prefix [of cfg s' ds] obtain rs
    where rs: "client (run cfg s' ds) = client s' @ rs" ..
  have "sent cfg s' ds = rs"
    using rs by (simp add: sent_def)
  moreover have "emitted cfg s d = [r]"
    using assms r by (simp add: emitted_def)
  moreover have "sent cfg s (d # ds) = r # rs"
    using assms r rs by (simp add: sent_def)
  ultimately show ?thesis by simp
qed

lemma emitted_Inl: "mixed_load cfg s d = Inl e \<Longrightarrow> emitted cfg s d = []"
  by (simp add: emitted_def)

subsection \<open>Runs of calls\<close>

lemma sent_step:
  "sent cfg s (d # ds) =
     emitted cfg s d @ sent cfg (case mixed_load cfg s d of Inl e \<Rightarrow> s | Inr s' \<Rightarrow> s') ds"
  by (cases "mixed_load cfg s d") (simp_all add: sent_Cons_Inl sent_Cons_Inr emitted_Inl)

lemma sent_all:
  assumes "\<And>(s'::cache_user) d. d \<in> set ds \<Longrightarrow> key_pool s' = key_pool s \<Longrightarrow> value_pool s' = value_pool s
             \<Longrightarrow> \<forall>r \<in> set (emitted cfg s' d). P r"
  shows "\<forall>r \<in> set (sent cfg s ds). P r"
  using assms
proof (induction ds arbitrary: s)
  case Nil
  show ?case by (simp add: sent_Nil)
next
  case (Cons d ds)
  define s1 where "s1 = (case mixed_load cfg s d of Inl e \<Rightarrow> s | Inr s' \<Rightarrow> s')"
  have pools: "key_pool s1 = key_pool s" "value_pool s1 = value_pool s"
    by (auto simp: s1_def split: sum.splits dest: mixed_load_frame)
  have head: "\<forall>r \<in> set (emitted cfg s d). P r"
    by (rule Cons.prems) simp_all
  have tail: "\<forall>r \<in> set (sent cfg s1 ds). P r"
  proof (rule Cons.IH)
    fix s' :: cache_user and d'
    assume "d' \<in> set ds" "key_pool s' = key_pool s1" "value_pool s' = value_pool s1"
    then show "\<forall>r \<in> set (emitted cfg s' d'). P r"
      using Cons.prems [of d' s'] pools by simp
  qed
  show ?case
    using head tail by (auto simp: sent_step [of cfg s d ds] s1_def [symmetric])
qed

lemma sent_length:
  assumes "\<And>(s'::cache_user) d. d \<in> set ds \<Longrightarrow> key_pool s' = key_pool s \<Longrightarrow> value_pool s' = value_pool s
             \<Longrightarrow> length (emitted cfg s' d) = 1"
  shows "length (sent cfg s ds) = length ds"
  using assms
proof (induction ds arbitrary: s)
  case Nil
  show ?case by (simp add: sent_Nil)
next
  case (Cons d ds)
  define s1 where "s1 = (case mixed_load cfg s d of Inl e \<Rightarrow> s | Inr s' \<Rightarrow> s')"
  have pools: "key_pool s1 = key_pool s" "value_pool s1 = value_pool s"
    by (auto simp: s1_def split: sum.splits dest: mixed_load_frame)
  have head: "length (emitted cfg s d) = 1"
    by (rule Cons.prems) simp_all
  have tail: "length (sent cfg s1 ds) = length ds"
  proof (rule Cons.IH)
    fix s' :: cache_user and d'
    assume "d' \<in> set ds" "key_pool s' = key_pool s1" "value_pool s' = value_pool s1"
    then show "length (emitted cfg s' d') = 1"
      using Cons.prems [of d' s'] pools by simp
  qed
  show ?case
    using head tail by (simp add: sent_step [of cfg s d ds] s1_def [symmetric])
qed

lemma emitted_put:
  assumes "random_random (coin d) < PUT_RATIO cfg" and "draws_ok s d"
  shows "emitted cfg s d =
     [\<lparr>req_method = POST, req_url = ''/put'',
       req_json = Some [(''key'', key_pool s ! key_draw d),
                        (''value'', value_pool s ! value_draw d)],
       req_name = ''/put''\<rparr>]"
  using assms
  by (simp add: emitted_def mixed_load_def put_request_def client_post_def choice_in_range
      draws_ok_def)

lemma emitted_get:
  assumes "\<not> random_random (coin d) < PUT_RATIO cfg" and "key_draw d < length (key_pool s)"
  shows "emitted cfg s d =
     [\<lparr>req_method = GET, req_url = ''/get?key='' @ key_pool s ! key_draw d,
       req_json = None, req_name = ''/get''\<rparr>]"
  using assms
  by (simp add: emitted_def mixed_load_def get_request_def client_get_def choice_in_range)

lemma emitted_cases:
  assumes "r \<in> set (emitted cfg s d)"
  shows "(random_random (coin d) < PUT_RATIO cfg \<and> draws_ok s d \<and>
          r = \<lparr>req_method = POST, req_url = ''/put'',
                req_json = Some [(''key'', key_pool s ! key_draw d),
                                 (''value'', value_pool s ! value_draw d)],
                req_name = ''/put''\<rparr>) \<or>
         (\<not> random_random (coin d) < PUT_RATIO cfg \<and> key_draw d < length (key_pool s) \<and>
          r = \<lparr>req_method = GET, req_url = ''/get?key='' @ key_pool s ! key_draw d,
                req_json = None, req_name = ''/get''\<rparr>)"
proof (cases "mixed_load cfg s d")
  case (Inl e)
  with assms show ?thesis by (simp add: emitted_def)
next
  case (Inr s')
  show ?thesis
  proof (cases "random_random (coin d) < PUT_RATIO cfg")
    case True
    with Inr have "put_request s d = Inr s'" by (simp add: mixed_load_def)
    then have ok: "draws_ok s d" by (simp add: put_request_Inr_iff draws_ok_def)
    from assms show ?thesis
      using True ok by (simp add: emitted_put)
  next
    case False
    with Inr have "get_request s d = Inr s'" by (simp add: mixed_load_def)
    then have ok: "key_draw d < length (key_pool s)" by (simp add: get_request_Inr_iff)
    from assms show ?thesis
      using False ok by (simp add: emitted_get)
  qed
qed

lemma ex_low_coin: "random_random (coin ex_low) = 0"
  by (simp add: ex_low_def random_random_def)

lemma ex_high_coin: "random_random (coin ex_high) = 1 / 2"
  by (simp add: ex_high_def random_random_def)

lemma sent_ex_low_high:
  "sent (ex_cfg (1 / 2)) ex_user [ex_low, ex_high] =
     [\<lparr>req_method = POST, req_url = ''/put'',
       req_json = Some [(''key'', ''k1''), (''value'', ''v3'')], req_name = ''/put''\<rparr>,
      \<lparr>req_method = GET, req_url = ''/get?key=k2'', req_json = None, req_name = ''/get''\<rparr>]"
  by (simp add: sent_def mixed_load_def put_request_def get_request_def client_post_def
      client_get_def choice_def getitem_def ex_cfg_def ex_user_def ex_low_coin ex_high_coin)
     (simp add: ex_low_def ex_high_def)

lemma sent_ex_ratio_one:
  "sent (ex_cfg 1) ex_user [ex_low, ex_high] =
     [\<lparr>req_method = POST, req_url = ''/put'',
       req_json = Some [(''key'', ''k1''), (''value'', ''v3'')], req_name = ''/put''\<rparr>,
      \<lparr>req_method = POST, req_url = ''/put'',
       req_json = Some [(''key'', ''k2''), (''value'', ''v0'')], req_name = ''/put''\<rparr>]"
  by (simp add: sent_def mixed_load_def put_request_def get_request_def client_post_def
      client_get_def choice_def getitem_def ex_cfg_def ex_user_def ex_low_coin ex_high_coin)
     (simp add: ex_low_def ex_high_def)

lemma sent_ex_ratio_zero:
  "sent (ex_cfg 0) ex_user [ex_low, ex_high] =
     [\<lparr>req_method = GET, req_url = ''/get?key=k1'', req_json = None, req_name = ''/get''\<rparr>,
      \<lparr>req_method = GET, req_url = ''/get?key=k2'', req_json = None, req_name = ''/get''\<rparr>]"
  by (simp add: sent_def mixed_load_def put_request_def get_request_def client_post_def
      client_get_def choice_def getitem_def ex_cfg_def ex_user_def ex_low_coin ex_high_coin)
     (simp add: ex_low_def ex_high_def)

lemma draws_ok_ex: "draws_ok ex_user ex_low" "draws_ok ex_user ex_high"
  by (simp_all add: draws_ok_def ex_user_def ex_low_def ex_high_def)

subsection \<open>The comprehensions of the class body\<close>

lemma collect_length: "collect f n = Inr xs \<Longrightarrow> length xs = n"
  by (induction n arbitrary: xs) (auto split: sum.splits)

lemma collect_nth: "collect f n = Inr xs \<Longrightarrow> i < n \<Longrightarrow> f i = Inr (xs ! i)"
proof (induction n arbitrary: xs)
  case 0
  then show ?case by simp
next
  case (Suc n)
  from Suc.prems(1) obtain ys y where ys: "collect f n = Inr ys" and y: "f n = Inr y"
    and xs: "xs = ys @ [y]"
    by (auto split: sum.splits)
  have len: "length ys = n" using ys by (rule collect_length)
  show ?case
  proof (cases "i < n")
    case True
    then show ?thesis using Suc.IH [OF ys True] xs len by (simp add: nth_append)
  next
    case False
    with Suc.prems(2) have "i = n" by simp
    then show ?thesis using y xs len by (simp add: nth_append)
  qed
qed

lemma collect_total: "(\<And>i. i < n \<Longrightarrow> \<exists>x. f i = Inr x) \<Longrightarrow> \<exists>xs. collect f n = Inr xs"
proof (induction n)
  case 0
  show ?case by simp
next
  case (Suc n)
  from Suc.IH Suc.prems obtain ys where "collect f n = Inr ys" by auto
  moreover from Suc.prems [of n] obtain y where "f n = Inr y" by auto
  ultimately show ?case by simp
qed

lemma collect_all:
  assumes "collect f n = Inr xs" and "\<And>i x. i < n \<Longrightarrow> f i = Inr x \<Longrightarrow> P x"
  shows "\<forall>x \<in> set xs. P x"
proof
  fix x assume "x \<in> set xs"
  then obtain i where i: "i < length xs" and x: "x = xs ! i"
    by (auto simp: in_set_conv_nth)
  from i have "i < n" using collect_length [OF assms(1)] by simp
  from collect_nth [OF assms(1) this] assms(2) [OF \<open>i < n\<close>] x show "P x" by simp
qed

lemma join_id: "join cs = cs"
  by (induction cs) (simp_all add: join_def)

lemma choices_Inr:
  assumes "choices population rnd k = Inr cs"
  shows "length cs = k" and "set cs \<subseteq> set population"
proof -
  from assms have c: "collect (\<lambda>j. getitem population (rnd j)) k = Inr cs"
    by (simp add: choices_def)
  show "length cs = k" using c by (rule collect_length)
  have "\<forall>x \<in> set cs. x \<in> set population"
    by (rule collect_all [OF c]) (auto simp: getitem_Inr_iff)
  then show "set cs \<subseteq> set population" by blast
qed

lemma choices_total:
  assumes "\<And>j. j < k \<Longrightarrow> rnd j < length population"
  shows "\<exists>cs. choices population rnd k = Inr cs"
  unfolding choices_def
  by (rule collect_total) (simp add: getitem_def assms)

lemma make_value_pool_Inr:
  assumes "make_value_pool cfg en = Inr vs"
  shows "length vs = KEY_POOL_SIZE cfg"
    and "\<forall>v \<in> set vs. length v = VALUE_LENGTH cfg \<and> set v \<subseteq> set string_printable"
proof -
  let ?f = "\<lambda>i. case choices string_printable (printable_draw en i) (VALUE_LENGTH cfg) of
               Inl e \<Rightarrow> Inl e
             | Inr cs \<Rightarrow> Inr (join cs)"
  from assms have c: "collect ?f (KEY_POOL_SIZE cfg) = Inr vs"
    by (simp add: make_value_pool_def)
  show "length vs = KEY_POOL_SIZE cfg" using c by (rule collect_length)
  show "\<forall>v \<in> set vs. length v = VALUE_LENGTH cfg \<and> set v \<subseteq> set string_printable"
  proof (rule collect_all [OF c])
    fix i v
    assume "?f i = Inr v"
    then obtain cs where cs: "choices string_printable (printable_draw en i) (VALUE_LENGTH cfg) = Inr cs"
      and v: "v = join cs"
      by (auto split: sum.splits)
    from choices_Inr [OF cs] v
    show "length v = VALUE_LENGTH cfg \<and> set v \<subseteq> set string_printable"
      by (simp add: join_id)
  qed
qed

lemma make_value_pool_total:
  assumes "entropy_ok cfg en"
  shows "\<exists>vs. make_value_pool cfg en = Inr vs"
  unfolding make_value_pool_def
proof (rule collect_total)
  fix i assume i: "i < KEY_POOL_SIZE cfg"
  have "\<exists>cs. choices string_printable (printable_draw en i) (VALUE_LENGTH cfg) = Inr cs"
    by (rule choices_total) (use assms i in \<open>simp add: entropy_ok_def\<close>)
  then show "\<exists>x. (case choices string_printable (printable_draw en i) (VALUE_LENGTH cfg) of
               Inl e \<Rightarrow> Inl e
             | Inr cs \<Rightarrow> Inr (join cs)) = Inr x"
    by auto
qed

lemma length_make_key_pool: "length (make_key_pool cfg en) = KEY_POOL_SIZE cfg"
  by (simp add: make_key_pool_def)

lemma make_key_pool_nth:
  "i < KEY_POOL_SIZE cfg \<Longrightarrow> make_key_pool cfg en ! i = UUID_str (uuid4 (urandom16 en i))"
  by (simp add: make_key_pool_def)

lemma new_user_Inr:
  assumes "new_user cfg en = Inr s"
  shows "key_pool s = make_key_pool cfg en" and "make_value_pool cfg en = Inr (value_pool s)"
    and "client s = []"
  using assms by (auto simp: new_user_def split: sum.splits)

lemma new_user_total: "entropy_ok cfg en \<Longrightarrow> \<exists>s. new_user cfg en = Inr s"
  using make_value_pool_total [of cfg en] by (auto simp: new_user_def)

lemma length_string_printable: "length string_printable = 100"
  by (simp add: string_printable_def string_digits_def string_ascii_letters_def
      string_ascii_lowercase_def string_ascii_uppercase_def string_punctuation_def
      string_whitespace_def)

subsection \<open>Hexadecimal digits and the string of a UUID\<close>

lemma length_hex_pad: "length (hex_pad w n) = w"
  by (induction w arbitrary: n) simp_all

lemma hex_char_in: "hex_char d \<in> set ''0123456789abcdef''"
proof -
  have "d mod 16 < length ''0123456789abcdef''" by simp
  then show ?thesis unfolding hex_char_def by (rule nth_mem)
qed

lemma set_hex_pad: "set (hex_pad w n) \<subseteq> set ''0123456789abcdef''"
  using hex_char_in by (induction w arbitrary: n) auto

lemma distinct_hex: "distinct ''0123456789abcdef''"
  by simp

lemma hex_char_inj:
  assumes "hex_char a = hex_char b" and "a < 16" and "b < 16"
  shows "a = b"
proof -
  have "''0123456789abcdef'' ! a = ''0123456789abcdef'' ! b"
    using assms by (simp add: hex_char_def)
  moreover have "a < length ''0123456789abcdef''" "b < length ''0123456789abcdef''"
    using assms by simp_all
  ultimately show ?thesis
    using distinct_hex by (simp only: nth_eq_iff_index_eq)
qed

lemma hex_pad_inj:
  "n < 16 ^ w \<Longrightarrow> m < 16 ^ w \<Longrightarrow> hex_pad w n = hex_pad w m \<Longrightarrow> n = m"
proof (induction w arbitrary: n m)
  case 0
  then show ?case by simp
next
  case (Suc w)
  from Suc.prems(3) have eq: "hex_pad w (n div 16) = hex_pad w (m div 16)"
    and last: "hex_char (n mod 16) = hex_char (m mod 16)"
    by (simp_all add: length_hex_pad)
  have "n div 16 < 16 ^ w" "m div 16 < 16 ^ w"
    using Suc.prems(1,2) by (simp_all add: less_mult_imp_div_less mult.commute)
  then have d: "n div 16 = m div 16" using eq by (rule Suc.IH)
  have "n mod 16 = m mod 16" using last by (rule hex_char_inj) simp_all
  with d show ?case by (metis div_mult_mod_eq)
qed

lemma unat_128: "unat (u :: 128 word) < 16 ^ 32"
  using unsigned_less [of u, where 'a = nat] by simp

lemma format_032x_inj: "format_032x (unat (u :: 128 word)) = format_032x (unat v) \<Longrightarrow> u = v"
  unfolding format_032x_def
  using hex_pad_inj [OF unat_128 unat_128] by (metis unsigned_word_eqI)

lemma length_format_032x: "length (format_032x n) = 32"
  by (simp add: format_032x_def length_hex_pad)

lemma set_format_032x: "set (format_032x n) \<subseteq> set ''0123456789abcdef''"
  unfolding format_032x_def by (rule set_hex_pad)

lemma dehyphen:
  assumes "length x = 32" and "CHR ''-'' \<notin> set x"
  shows "filter (\<lambda>c. c \<noteq> CHR ''-'')
           (take 8 x @ ''-'' @ slice 8 12 x @ ''-'' @ slice 12 16 x @ ''-'' @ slice 16 20 x
              @ ''-'' @ drop 20 x) = x"
proof -
  have keep: "filter (\<lambda>c. c \<noteq> CHR ''-'') ys = ys" if "set ys \<subseteq> set x" for ys
    using that assms(2) by (auto simp: filter_id_conv)
  have sub: "set (take 8 x) \<subseteq> set x" "set (slice 8 12 x) \<subseteq> set x"
    "set (slice 12 16 x) \<subseteq> set x" "set (slice 16 20 x) \<subseteq> set x" "set (drop 20 x) \<subseteq> set x"
    by (auto simp: slice_def dest: in_set_takeD in_set_dropD)
  have "take 8 x @ slice 8 12 x @ slice 12 16 x @ slice 16 20 x @ drop 20 x = x"
  proof -
    have a: "slice 16 20 x @ drop 20 x = drop 16 x"
      using append_take_drop_id [of 4 "drop 16 x"] by (simp add: slice_def)
    have b: "slice 12 16 x @ drop 16 x = drop 12 x"
      using append_take_drop_id [of 4 "drop 12 x"] by (simp add: slice_def)
    have c: "slice 8 12 x @ drop 12 x = drop 8 x"
      using append_take_drop_id [of 4 "drop 8 x"] by (simp add: slice_def)
    show ?thesis by (simp add: a b c)
  qed
  then show ?thesis
    using sub by (simp add: keep)
qed

lemma hyphen_not_hex: "CHR ''-'' \<notin> set (format_032x n)"
  using set_format_032x [of n] by auto

lemma dehyphen_UUID_str:
  "filter (\<lambda>c. c \<noteq> CHR ''-'') (UUID_str w) = format_032x (unat w)"
proof -
  define x where "x = format_032x (unat w)"
  have x: "length x = 32" "CHR ''-'' \<notin> set x"
    by (simp_all add: x_def length_format_032x hyphen_not_hex)
  have "UUID_str w = take 8 x @ ''-'' @ slice 8 12 x @ ''-'' @ slice 12 16 x @ ''-''
      @ slice 16 20 x @ ''-'' @ drop 20 x"
    by (simp only: UUID_str_def Let_def x_def)
  then show ?thesis
    using dehyphen [OF x] by (simp only: x_def)
qed

lemma UUID_str_inj: "UUID_str u = UUID_str v \<Longrightarrow> u = v"
proof -
  assume eq: "UUID_str u = UUID_str v"
  have "format_032x (unat u) = filter (\<lambda>c. c \<noteq> CHR ''-'') (UUID_str u)"
    by (simp only: dehyphen_UUID_str)
  also have "\<dots> = filter (\<lambda>c. c \<noteq> CHR ''-'') (UUID_str v)"
    by (simp only: eq)
  also have "\<dots> = format_032x (unat v)"
    by (simp only: dehyphen_UUID_str)
  finally show "u = v" by (rule format_032x_inj)
qed

lemma UUID_str_chars:
  assumes "c \<in> set (UUID_str u)"
  shows "c = CHR ''-'' \<or> c \<in> set (format_032x (unat u))"
proof -
  define x where "x = format_032x (unat u)"
  have "UUID_str u = take 8 x @ ''-'' @ slice 8 12 x @ ''-'' @ slice 12 16 x @ ''-''
      @ slice 16 20 x @ ''-'' @ drop 20 x"
    by (simp only: UUID_str_def Let_def x_def)
  with assms have "c \<in> set (take 8 x) \<or> c = CHR ''-'' \<or> c \<in> set (slice 8 12 x) \<or>
      c \<in> set (slice 12 16 x) \<or> c \<in> set (slice 16 20 x) \<or> c \<in> set (drop 20 x)"
    by auto
  then have "c = CHR ''-'' \<or> c \<in> set x"
    by (auto simp: slice_def dest: in_set_takeD in_set_dropD)
  then show ?thesis by (simp only: x_def)
qed

lemma hex_char_plain:
  "hex_char d \<noteq> CHR ''?''" "hex_char d \<noteq> CHR ''&''" "hex_char d \<noteq> CHR ''=''"
  using hex_char_in [of d] by auto

lemma format_032x_plain:
  assumes "c \<in> set (format_032x n)"
  shows "c \<noteq> CHR ''?'' \<and> c \<noteq> CHR ''&'' \<and> c \<noteq> CHR ''=''"
proof -
  have "\<forall>c \<in> set (hex_pad w m). c \<noteq> CHR ''?'' \<and> c \<noteq> CHR ''&'' \<and> c \<noteq> CHR ''=''" for w m
    by (induction w arbitrary: m) (simp_all add: hex_char_plain)
  with assms show ?thesis by (simp add: format_032x_def)
qed

lemma UUID_str_plain:
  assumes "c \<in> set (UUID_str u)"
  shows "c \<noteq> CHR ''?'' \<and> c \<noteq> CHR ''&'' \<and> c \<noteq> CHR ''=''"
  using UUID_str_chars [OF assms] format_032x_plain [of c "unat u"] by auto

lemma length_UUID_str: "length (UUID_str u) = 36"
  by (simp add: UUID_str_def Let_def slice_def length_format_032x)

lemma hex_pad_numeral:
  "hex_pad (numeral k) n = hex_pad (pred_numeral k) (n div 16) @ [hex_char (n mod 16)]"
proof -
  have "hex_pad (numeral k) n = hex_pad (Suc (pred_numeral k)) n"
    by (simp only: numeral_eq_Suc)
  then show ?thesis by (simp only: hex_pad.simps)
qed

lemma uuid4_ex: "uuid4 0x0123456789abcdef0123456789abcdef = 0x0123456789ab4def8123456789abcdef"
  unfolding uuid4_def Let_def by code_simp

lemma UUID_str_ex: "UUID_str 0x0123456789ab4def8123456789abcdef = ''01234567-89ab-4def-8123-456789abcdef''"
  by (simp add: UUID_str_def format_032x_def hex_pad_numeral hex_char_def slice_def)

subsection \<open>The bits that uuid4 sets\<close>

lemma mask_algebra:
  fixes r a b c d :: "'a::len word"
  shows "((((r AND NOT a) OR b) AND NOT c) OR d) = (r AND NOT a AND NOT c) OR ((b AND NOT c) OR d)"
  by (rule bit_eqI) (auto simp: bit_and_iff bit_or_iff bit_not_iff)

lemma mask_back:
  fixes k e m :: "'a::len word"
  assumes "e AND m = 0" and "k AND m = k"
  shows "(k OR e) AND m = k"
proof -
  have "(k OR e) AND m = (k AND m) OR (e AND m)"
    by (rule bit_eqI) (auto simp: bit_and_iff bit_or_iff)
  with assms show ?thesis by simp
qed

lemma fixed_off:
  "((push_bit 48 (0x8000 :: 128 word) AND NOT (push_bit 64 0xf000)) OR push_bit 76 4)
     AND (NOT (push_bit 48 0xc000) AND NOT (push_bit 64 0xf000)) = 0"
  by simp

lemma uuid4_split:
  "uuid4 r = kept_bits r OR ((push_bit 48 0x8000 AND NOT (push_bit 64 0xf000)) OR push_bit 76 4)"
  unfolding uuid4_def Let_def kept_bits_def by (rule mask_algebra)

lemma kept_bits_uuid4:
  "uuid4 r AND (NOT (push_bit 48 0xc000) AND NOT (push_bit 64 0xf000)) = kept_bits r"
  unfolding uuid4_split
proof (rule mask_back [OF fixed_off])
  show "kept_bits r AND (NOT (push_bit 48 0xc000) AND NOT (push_bit 64 0xf000)) = kept_bits r"
    unfolding kept_bits_def
    by (rule bit_eqI) (auto simp: bit_and_iff bit_or_iff bit_not_iff)
qed

lemma uuid4_eq_iff: "uuid4 r1 = uuid4 r2 \<longleftrightarrow> kept_bits r1 = kept_bits r2"
proof
  assume "uuid4 r1 = uuid4 r2"
  then show "kept_bits r1 = kept_bits r2"
    using kept_bits_uuid4 [of r1] kept_bits_uuid4 [of r2] by (simp only:)
next
  assume "kept_bits r1 = kept_bits r2"
  then show "uuid4 r1 = uuid4 r2"
    by (simp only: uuid4_split)
qed

lemma split_on_none: "c \<notin> set s \<Longrightarrow> split_on c s = [s]"
  by (induction s) auto

lemma url_path_get: "url_path (''/get?key='' @ k) = ''/get''"
  by (simp add: url_path_def)

lemma url_query_get: "url_query (''/get?key='' @ k) = ''key='' @ k"
  by (simp add: url_query_def)

lemma query_params_key:
  "CHR ''&'' \<notin> set k \<Longrightarrow> query_params (''key='' @ k) = [(''key'', k)]"
  by (simp add: query_params_def split_on_none)

lemma UUID_str_eq_iff: "UUID_str u = UUID_str v \<longleftrightarrow> u = v"
proof
  assume "UUID_str u = UUID_str v"
  then show "u = v" by (rule UUID_str_inj)
next
  assume "u = v"
  then show "UUID_str u = UUID_str v" by (rule arg_cong)
qed

lemma make_key_pool_eq_iff:
  assumes "i < KEY_POOL_SIZE cfg" and "j < KEY_POOL_SIZE cfg"
  shows "make_key_pool cfg en ! i = make_key_pool cfg en ! j \<longleftrightarrow>
         kept_bits (urandom16 en i) = kept_bits (urandom16 en j)"
proof -
  have "make_key_pool cfg en ! i = make_key_pool cfg en ! j \<longleftrightarrow>
      UUID_str (uuid4 (urandom16 en i)) = UUID_str (uuid4 (urandom16 en j))"
    using assms by (simp only: make_key_pool_nth)
  also have "\<dots> \<longleftrightarrow> uuid4 (urandom16 en i) = uuid4 (urandom16 en j)"
    by (rule UUID_str_eq_iff)
  also have "\<dots> \<longleftrightarrow> kept_bits (urandom16 en i) = kept_bits (urandom16 en j)"
    by (rule uuid4_eq_iff)
  finally show ?thesis .
qed

lemma distinct_make_key_pool:
  "distinct (make_key_pool cfg en) \<longleftrightarrow>
     inj_on (\<lambda>i. kept_bits (urandom16 en i)) {..<KEY_POOL_SIZE cfg}"
proof -
  have "distinct (make_key_pool cfg en) \<longleftrightarrow>
      inj_on (\<lambda>i. UUID_str (uuid4 (urandom16 en i))) {..<KEY_POOL_SIZE cfg}"
    by (simp add: make_key_pool_def distinct_map atLeast0LessThan)
  also have "\<dots> \<longleftrightarrow> inj_on (\<lambda>i. kept_bits (urandom16 en i)) {..<KEY_POOL_SIZE cfg}"
    by (simp only: inj_on_def UUID_str_eq_iff uuid4_eq_iff)
  finally show ?thesis .
qed

lemma key_pool_plain:
  assumes "k \<in> set (make_key_pool cfg en)" and "c \<in> set k"
  shows "c \<noteq> CHR ''?'' \<and> c \<noteq> CHR ''&'' \<and> c \<noteq> CHR ''=''"
proof -
  from assms(1) obtain u where "k = UUID_str u"
    by (auto simp: make_key_pool_def)
  with assms(2) show ?thesis by (simp add: UUID_str_plain)
qed

lemma kept_ex: "kept_bits (urandom16 ex_entropy 0) \<noteq> kept_bits (urandom16 ex_entropy 1)"
  unfolding ex_entropy_def kept_bits_def by simp

subsection \<open>The class body on concrete outcomes\<close>

lemma uuid4_small:
  "uuid4 0 = 0x00000000000040008000000000000000"
  "uuid4 1 = 0x00000000000040008000000000000001"
  "uuid4 2 = 0x00000000000040008000000000000002"
  "uuid4 3 = 0x00000000000040008000000000000003"
  unfolding uuid4_def Let_def by code_simp+

lemma UUID_str_small:
  "UUID_str 0x00000000000040008000000000000000 = ''00000000-0000-4000-8000-000000000000''"
  "UUID_str 0x00000000000040008000000000000001 = ''00000000-0000-4000-8000-000000000001''"
  "UUID_str 0x00000000000040008000000000000002 = ''00000000-0000-4000-8000-000000000002''"
  "UUID_str 0x00000000000040008000000000000003 = ''00000000-0000-4000-8000-000000000003''"
  by (simp_all add: UUID_str_def format_032x_def hex_pad_numeral hex_char_def slice_def)

lemma upt_4: "[0..<4] = [0, 1, 2, 3]"
  by (simp add: upt_rec)

lemma make_key_pool_ex:
  "make_key_pool (ex_cfg ratio) ex_entropy = key_pool ex_pool_user"
  by (simp add: make_key_pool_def ex_cfg_def ex_entropy_def upt_4 uuid4_small UUID_str_small
      ex_pool_user_def)

lemma collect_numeral:
  "collect f (numeral k) =
     (case collect f (pred_numeral k) of
        Inl e \<Rightarrow> Inl e
      | Inr xs \<Rightarrow> (case f (pred_numeral k) of Inl e \<Rightarrow> Inl e | Inr x \<Rightarrow> Inr (xs @ [x])))"
proof -
  have "collect f (numeral k) = collect f (Suc (pred_numeral k))"
    by (simp only: numeral_eq_Suc)
  then show ?thesis by (simp only: collect.simps)
qed

lemma make_value_pool_ex:
  "make_value_pool (ex_cfg ratio) ex_entropy = Inr (value_pool ex_pool_user)"
  by (simp add: make_value_pool_def choices_def collect_numeral getitem_def join_def
      length_string_printable ex_cfg_def ex_entropy_def ex_pool_user_def)
     (simp add: string_printable_def string_digits_def)

lemma new_user_ex: "new_user (ex_cfg ratio) ex_entropy = Inr ex_pool_user"
  by (simp add: new_user_def make_key_pool_ex make_value_pool_ex) (simp add: ex_pool_user_def)

lemma entropy_ok_ex: "entropy_ok (ex_cfg ratio) ex_entropy"
  by (simp add: entropy_ok_def ex_cfg_def ex_entropy_def length_string_printable)

lemma sent_ex_pool:
  "sent (ex_cfg (1 / 2)) ex_pool_user [ex_low, ex_high] =
     [\<lparr>req_method = POST, req_url = ''/put'',
       req_json = Some [(''key'', ''00000000-0000-4000-8000-000000000001''), (''value'', ''34'')],
       req_name = ''/put''\<rparr>,
      \<lparr>req_method = GET, req_url = ''/get?key=00000000-0000-4000-8000-000000000002'',
       req_json = None, req_name = ''/get''\<rparr>]"
  by (simp add: sent_def mixed_load_def put_request_def get_request_def client_post_def
      client_get_def choice_def getitem_def ex_cfg_def ex_pool_user_def ex_low_coin ex_high_coin)
     (simp add: ex_low_def ex_high_def)

section \<open>The claims\<close>

subsection \<open>C1: the weighted choice between a write and a read\<close>

text \<open>
  C1. For every call of \<open>mixed_load\<close>: if the uniform draw is below \<open>PUT_RATIO\<close>, the call
  is a write. It takes the key at the position of the key draw in the key pool and the
  value at the position of the value draw in the value pool, the two positions being
  separate draws, and makes one POST call on the client that carries both. Otherwise the
  call is a read: it takes the key at the position of the key draw and makes one GET call
  that carries the key only. Each position of a pool is selected by exactly the draw of
  that position, so the selection is as uniform as the library's index draw.
\<close>

theorem mixed_load_write_or_read:
  "(random_random (coin d) < PUT_RATIO cfg \<and> draws_ok s d \<longrightarrow>
      mixed_load cfg s d =
        Inr (s\<lparr>client := client s @
              [\<lparr>req_method = POST, req_url = ''/put'',
                req_json = Some [(''key'', key_pool s ! key_draw d),
                                 (''value'', value_pool s ! value_draw d)],
                req_name = ''/put''\<rparr>]\<rparr>)) \<and>
   (\<not> random_random (coin d) < PUT_RATIO cfg \<and> key_draw d < length (key_pool s) \<longrightarrow>
      mixed_load cfg s d =
        Inr (s\<lparr>client := client s @
              [\<lparr>req_method = GET, req_url = ''/get?key='' @ key_pool s ! key_draw d,
                req_json = None, req_name = ''/get''\<rparr>]\<rparr>))"
  by (simp add: mixed_load_def put_request_Inr_iff get_request_Inr_iff draws_ok_def)

theorem mixed_load_write_or_read_witness:
  "random_random (coin ex_low) < PUT_RATIO (ex_cfg (1 / 2)) \<and> draws_ok ex_user ex_low \<and>
   mixed_load (ex_cfg (1 / 2)) ex_user ex_low =
     Inr (ex_user\<lparr>client :=
       [\<lparr>req_method = POST, req_url = ''/put'',
         req_json = Some [(''key'', ''k1''), (''value'', ''v3'')], req_name = ''/put''\<rparr>]\<rparr>) \<and>
   \<not> random_random (coin ex_high) < PUT_RATIO (ex_cfg (1 / 2)) \<and>
   key_draw ex_high < length (key_pool ex_user) \<and>
   mixed_load (ex_cfg (1 / 2)) ex_user ex_high =
     Inr (ex_user\<lparr>client :=
       [\<lparr>req_method = GET, req_url = ''/get?key=k2'', req_json = None,
         req_name = ''/get''\<rparr>]\<rparr>)"
proof -
  have low: "random_random (coin ex_low) < PUT_RATIO (ex_cfg (1 / 2)) \<and> draws_ok ex_user ex_low"
    by (simp add: ex_low_coin ex_cfg_def draws_ok_ex)
  have high: "\<not> random_random (coin ex_high) < PUT_RATIO (ex_cfg (1 / 2)) \<and>
      key_draw ex_high < length (key_pool ex_user)"
    by (simp add: ex_high_coin ex_cfg_def) (simp add: ex_high_def ex_user_def)
  have w: "mixed_load (ex_cfg (1 / 2)) ex_user ex_low =
      Inr (ex_user\<lparr>client := client ex_user @
        [\<lparr>req_method = POST, req_url = ''/put'',
          req_json = Some [(''key'', key_pool ex_user ! key_draw ex_low),
                           (''value'', value_pool ex_user ! value_draw ex_low)],
          req_name = ''/put''\<rparr>]\<rparr>)"
    using mixed_load_write_or_read [of ex_low "ex_cfg (1 / 2)" ex_user] low by blast
  have r: "mixed_load (ex_cfg (1 / 2)) ex_user ex_high =
      Inr (ex_user\<lparr>client := client ex_user @
        [\<lparr>req_method = GET, req_url = ''/get?key='' @ key_pool ex_user ! key_draw ex_high,
          req_json = None, req_name = ''/get''\<rparr>]\<rparr>)"
    using mixed_load_write_or_read [of ex_high "ex_cfg (1 / 2)" ex_user] high by blast
  have "key_pool ex_user ! key_draw ex_low = ''k1''"
    "value_pool ex_user ! value_draw ex_low = ''v3''"
    "key_pool ex_user ! key_draw ex_high = ''k2''" "client ex_user = []"
    by (simp_all add: ex_user_def ex_low_def ex_high_def)
  with w r low high show ?thesis by simp
qed

subsection \<open>C2: ratio 1.0\<close>

text \<open>
  C2. With write ratio 1, every call of a run makes a POST call on \<open>/put\<close> whose body has
  a key of the key pool and a value of the value pool, and no GET call is made: a run of
  \<open>n\<close> calls makes \<open>n\<close> POST calls and no GET call, for every \<open>n\<close>. The draws are the
  library's, each index below the length of its pool.
\<close>

theorem ratio_one_all_writes:
  assumes "PUT_RATIO cfg = 1" and "\<forall>d \<in> set ds. draws_ok s d"
  shows "length (sent cfg s ds) = length ds \<and>
         (\<forall>r \<in> set (sent cfg s ds).
            is_post_put r \<and>
            (\<exists>k \<in> set (key_pool s). \<exists>v \<in> set (value_pool s).
               req_json r = Some [(''key'', k), (''value'', v)])) \<and>
         filter is_get (sent cfg s ds) = []"
proof -
  have one: "emitted cfg s' d =
       [\<lparr>req_method = POST, req_url = ''/put'',
         req_json = Some [(''key'', key_pool s ! key_draw d),
                          (''value'', value_pool s ! value_draw d)],
         req_name = ''/put''\<rparr>]"
    if "d \<in> set ds" "key_pool s' = key_pool s" "value_pool s' = value_pool s"
    for s' :: cache_user and d
  proof -
    have "random_random (coin d) < PUT_RATIO cfg"
      using assms(1) random_random_less1 [of "coin d"] by simp
    moreover have "draws_ok s' d"
      using assms(2) that by (simp add: draws_ok_def)
    ultimately show ?thesis
      using that by (simp add: emitted_put)
  qed
  have len: "length (sent cfg s ds) = length ds"
    by (rule sent_length) (simp add: one)
  have shape: "\<forall>r \<in> set (sent cfg s ds).
            is_post_put r \<and>
            (\<exists>k \<in> set (key_pool s). \<exists>v \<in> set (value_pool s).
               req_json r = Some [(''key'', k), (''value'', v)])"
  proof (rule sent_all)
    fix s' :: cache_user and d
    assume d: "d \<in> set ds" and p: "key_pool s' = key_pool s" "value_pool s' = value_pool s"
    have "draws_ok s d" using assms(2) d by simp
    then show "\<forall>r \<in> set (emitted cfg s' d).
            is_post_put r \<and>
            (\<exists>k \<in> set (key_pool s). \<exists>v \<in> set (value_pool s).
               req_json r = Some [(''key'', k), (''value'', v)])"
      by (simp add: one [OF d p] is_post_put_def draws_ok_def)
  qed
  have "\<forall>r \<in> set (sent cfg s ds). \<not> is_get r"
    using shape by (auto simp: is_post_put_def is_get_def)
  then have "filter is_get (sent cfg s ds) = []"
    by (simp add: filter_empty_conv)
  with len shape show ?thesis by simp
qed

theorem ratio_one_all_writes_witness:
  "PUT_RATIO (ex_cfg 1) = 1 \<and> draws_ok ex_user ex_low \<and> draws_ok ex_user ex_high \<and>
   length (sent (ex_cfg 1) ex_user [ex_low, ex_high]) = 2 \<and>
   is_post_put (sent (ex_cfg 1) ex_user [ex_low, ex_high] ! 0) \<and>
   is_post_put (sent (ex_cfg 1) ex_user [ex_low, ex_high] ! 1) \<and>
   filter is_get (sent (ex_cfg 1) ex_user [ex_low, ex_high]) = []"
proof -
  have h1: "PUT_RATIO (ex_cfg 1) = 1"
    by (simp add: ex_cfg_def)
  have h2: "\<forall>d \<in> set [ex_low, ex_high]. draws_ok ex_user d"
    by (simp add: draws_ok_ex)
  from ratio_one_all_writes [OF h1 h2] h1 show ?thesis
    by (simp add: sent_ex_ratio_one draws_ok_ex)
qed

subsection \<open>C3: ratio 0.0\<close>

text \<open>
  C3. With write ratio 0, every call of a run makes a GET call on \<open>/get?key=...\<close> with a
  key of the key pool and without a body, and no POST call on \<open>/put\<close> is made: a run of
  \<open>n\<close> calls makes \<open>n\<close> GET calls, for every \<open>n\<close>. The key draws are the library's, each
  below the length of the key pool.
\<close>

theorem ratio_zero_all_reads:
  assumes "PUT_RATIO cfg = 0" and "\<forall>d \<in> set ds. key_draw d < length (key_pool s)"
  shows "length (sent cfg s ds) = length ds \<and>
         (\<forall>r \<in> set (sent cfg s ds).
            is_get r \<and> req_json r = None \<and>
            (\<exists>k \<in> set (key_pool s). req_url r = ''/get?key='' @ k)) \<and>
         filter is_post_put (sent cfg s ds) = []"
proof -
  have one: "emitted cfg s' d =
       [\<lparr>req_method = GET, req_url = ''/get?key='' @ key_pool s ! key_draw d,
         req_json = None, req_name = ''/get''\<rparr>]"
    if "d \<in> set ds" "key_pool s' = key_pool s" "value_pool s' = value_pool s"
    for s' :: cache_user and d
  proof -
    have "\<not> random_random (coin d) < PUT_RATIO cfg"
      using assms(1) random_random_ge0 [of "coin d"] by simp
    moreover have "key_draw d < length (key_pool s')"
      using assms(2) that by simp
    ultimately show ?thesis
      using that by (simp add: emitted_get)
  qed
  have len: "length (sent cfg s ds) = length ds"
    by (rule sent_length) (simp add: one)
  have shape: "\<forall>r \<in> set (sent cfg s ds).
            is_get r \<and> req_json r = None \<and>
            (\<exists>k \<in> set (key_pool s). req_url r = ''/get?key='' @ k)"
  proof (rule sent_all)
    fix s' :: cache_user and d
    assume d: "d \<in> set ds" and p: "key_pool s' = key_pool s" "value_pool s' = value_pool s"
    have "key_draw d < length (key_pool s)" using assms(2) d by simp
    then show "\<forall>r \<in> set (emitted cfg s' d).
            is_get r \<and> req_json r = None \<and>
            (\<exists>k \<in> set (key_pool s). req_url r = ''/get?key='' @ k)"
      by (simp add: one [OF d p] is_get_def)
  qed
  have "\<forall>r \<in> set (sent cfg s ds). \<not> is_post_put r"
    using shape by (auto simp: is_post_put_def is_get_def)
  then have "filter is_post_put (sent cfg s ds) = []"
    by (simp add: filter_empty_conv)
  with len shape show ?thesis by simp
qed

theorem ratio_zero_all_reads_witness:
  "PUT_RATIO (ex_cfg 0) = 0 \<and> key_draw ex_low < length (key_pool ex_user) \<and>
   key_draw ex_high < length (key_pool ex_user) \<and>
   length (sent (ex_cfg 0) ex_user [ex_low, ex_high]) = 2 \<and>
   is_get (sent (ex_cfg 0) ex_user [ex_low, ex_high] ! 0) \<and>
   is_get (sent (ex_cfg 0) ex_user [ex_low, ex_high] ! 1) \<and>
   filter is_post_put (sent (ex_cfg 0) ex_user [ex_low, ex_high]) = []"
proof -
  have h1: "PUT_RATIO (ex_cfg 0) = 0"
    by (simp add: ex_cfg_def)
  have h2: "\<forall>d \<in> set [ex_low, ex_high]. key_draw d < length (key_pool ex_user)"
    by (simp add: ex_low_def ex_high_def ex_user_def)
  from ratio_zero_all_reads [OF h1 h2] h1 h2 show ?thesis
    by (simp add: sent_ex_ratio_zero)
qed

subsection \<open>C4: keys come from the key pool\<close>

text \<open>
  C4. Every request that a run hands to the client, a read or a write, carries a key
  that is an element of the user's key pool.
\<close>

theorem sent_keys_in_key_pool:
  "\<forall>r \<in> set (sent cfg s ds). \<exists>k \<in> set (key_pool s). request_key r = Some k"
proof (rule sent_all)
  fix s' :: cache_user and d
  assume pools: "key_pool s' = key_pool s" "value_pool s' = value_pool s"
  show "\<forall>r \<in> set (emitted cfg s' d). \<exists>k \<in> set (key_pool s). request_key r = Some k"
  proof
    fix r
    assume "r \<in> set (emitted cfg s' d)"
    from emitted_cases [OF this] show "\<exists>k \<in> set (key_pool s). request_key r = Some k"
      using pools by (auto simp: request_key_def draws_ok_def)
  qed
qed

theorem sent_keys_in_key_pool_witness:
  "sent (ex_cfg (1 / 2)) ex_user [ex_low, ex_high] \<noteq> [] \<and>
   (\<exists>k \<in> set (key_pool ex_user).
      request_key (sent (ex_cfg (1 / 2)) ex_user [ex_low, ex_high] ! 0) = Some k) \<and>
   (\<exists>k \<in> set (key_pool ex_user).
      request_key (sent (ex_cfg (1 / 2)) ex_user [ex_low, ex_high] ! 1) = Some k)"
  using sent_keys_in_key_pool [of "ex_cfg (1 / 2)" ex_user "[ex_low, ex_high]"]
  by (simp add: sent_ex_low_high)

subsection \<open>C5: written values come from the value pool and have the fixed length\<close>

text \<open>
  C5. For a user made by the class body, every write request of a run carries in its
  body a value that is an element of the value pool; every element of the value pool is
  a string of exactly \<open>VALUE_LENGTH\<close> characters (256 in the file), each of them a
  character of \<open>string.printable\<close>; so every written value has that length.
\<close>

theorem written_values_fixed_length:
  assumes "new_user cfg en = Inr s"
  shows "(\<forall>r \<in> set (sent cfg s ds). is_post_put r \<longrightarrow>
            (\<exists>v \<in> set (value_pool s). request_value r = Some v \<and>
               length v = VALUE_LENGTH cfg \<and> set v \<subseteq> set string_printable)) \<and>
         (\<forall>v \<in> set (value_pool s).
            length v = VALUE_LENGTH cfg \<and> set v \<subseteq> set string_printable) \<and>
         VALUE_LENGTH default_config = 256"
proof -
  have pool: "\<forall>v \<in> set (value_pool s).
      length v = VALUE_LENGTH cfg \<and> set v \<subseteq> set string_printable"
    using make_value_pool_Inr(2) [OF new_user_Inr(2) [OF assms]] .
  have "\<forall>r \<in> set (sent cfg s ds). is_post_put r \<longrightarrow>
      (\<exists>v \<in> set (value_pool s). request_value r = Some v)"
  proof (rule sent_all)
    fix s' :: cache_user and d
    assume p: "key_pool s' = key_pool s" "value_pool s' = value_pool s"
    show "\<forall>r \<in> set (emitted cfg s' d). is_post_put r \<longrightarrow>
        (\<exists>v \<in> set (value_pool s). request_value r = Some v)"
    proof
      fix r
      assume "r \<in> set (emitted cfg s' d)"
      from emitted_cases [OF this]
      show "is_post_put r \<longrightarrow> (\<exists>v \<in> set (value_pool s). request_value r = Some v)"
        using p by (auto simp: request_value_def draws_ok_def is_post_put_def)
    qed
  qed
  with pool show ?thesis
    by (auto simp: default_config_def)
qed

theorem written_values_fixed_length_witness:
  "new_user (ex_cfg (1 / 2)) ex_entropy = Inr ex_pool_user \<and>
   is_post_put (sent (ex_cfg (1 / 2)) ex_pool_user [ex_low, ex_high] ! 0) \<and>
   (\<exists>v \<in> set (value_pool ex_pool_user).
      request_value (sent (ex_cfg (1 / 2)) ex_pool_user [ex_low, ex_high] ! 0) = Some v \<and>
      length v = VALUE_LENGTH (ex_cfg (1 / 2)) \<and> set v \<subseteq> set string_printable) \<and>
   length (value_pool ex_pool_user ! 0) = 2"
proof -
  have w: "is_post_put (sent (ex_cfg (1 / 2)) ex_pool_user [ex_low, ex_high] ! 0)"
    by (simp add: sent_ex_pool is_post_put_def)
  have m: "sent (ex_cfg (1 / 2)) ex_pool_user [ex_low, ex_high] ! 0
      \<in> set (sent (ex_cfg (1 / 2)) ex_pool_user [ex_low, ex_high])"
    by (simp add: sent_ex_pool)
  have v: "value_pool ex_pool_user ! 0 \<in> set (value_pool ex_pool_user)"
    by (simp add: ex_pool_user_def)
  have l: "VALUE_LENGTH (ex_cfg (1 / 2)) = 2"
    by (simp add: ex_cfg_def)
  from written_values_fixed_length [OF new_user_ex [of "1 / 2"], of "[ex_low, ex_high]"] w m v l
  show ?thesis
    using new_user_ex [of "1 / 2"] by metis
qed

subsection \<open>C6: the pools have the same size and are never changed\<close>

text \<open>
  C6. The class body, given index draws that the library can give, makes the user; the
  key pool and the value pool of the user it makes both have \<open>KEY_POOL_SIZE\<close> elements;
  after any run of calls both pools are the lists they were, and neither the write path
  nor the read path changes them.
\<close>

theorem pools_equal_size_never_mutated:
  "(entropy_ok cfg en \<longrightarrow> (\<exists>s. new_user cfg en = Inr s)) \<and>
   (\<forall>s. new_user cfg en = Inr s \<longrightarrow>
      length (key_pool s) = KEY_POOL_SIZE cfg \<and>
      length (value_pool s) = KEY_POOL_SIZE cfg \<and>
      (\<forall>ds. key_pool (run cfg s ds) = key_pool s \<and>
            value_pool (run cfg s ds) = value_pool s) \<and>
      (\<forall>d s'. put_request s d = Inr s' \<longrightarrow>
            key_pool s' = key_pool s \<and> value_pool s' = value_pool s) \<and>
      (\<forall>d s'. get_request s d = Inr s' \<longrightarrow>
            key_pool s' = key_pool s \<and> value_pool s' = value_pool s))"
proof (intro conjI allI impI)
  assume "entropy_ok cfg en"
  then show "\<exists>s. new_user cfg en = Inr s" by (rule new_user_total)
next
  fix s assume s: "new_user cfg en = Inr s"
  show "length (key_pool s) = KEY_POOL_SIZE cfg"
    by (simp add: new_user_Inr(1) [OF s] length_make_key_pool)
  show "length (value_pool s) = KEY_POOL_SIZE cfg"
    using make_value_pool_Inr(1) [OF new_user_Inr(2) [OF s]] .
next
  fix s :: cache_user and ds
  show "key_pool (run cfg s ds) = key_pool s" by (rule run_key_pool)
  show "value_pool (run cfg s ds) = value_pool s" by (rule run_value_pool)
next
  fix s s' :: cache_user and d
  assume "put_request s d = Inr s'"
  then show "key_pool s' = key_pool s" "value_pool s' = value_pool s"
    by (simp_all add: put_request_Inr_iff)
next
  fix s s' :: cache_user and d
  assume "get_request s d = Inr s'"
  then show "key_pool s' = key_pool s" "value_pool s' = value_pool s"
    by (simp_all add: get_request_Inr_iff)
qed

theorem pools_equal_size_never_mutated_witness:
  "entropy_ok (ex_cfg (1 / 2)) ex_entropy \<and>
   new_user (ex_cfg (1 / 2)) ex_entropy = Inr ex_pool_user \<and>
   length (key_pool ex_pool_user) = KEY_POOL_SIZE (ex_cfg (1 / 2)) \<and>
   length (value_pool ex_pool_user) = KEY_POOL_SIZE (ex_cfg (1 / 2)) \<and>
   key_pool (run (ex_cfg (1 / 2)) ex_pool_user [ex_low, ex_high]) = key_pool ex_pool_user \<and>
   value_pool (run (ex_cfg (1 / 2)) ex_pool_user [ex_low, ex_high]) = value_pool ex_pool_user"
  using pools_equal_size_never_mutated [of "ex_cfg (1 / 2)" ex_entropy] entropy_ok_ex [of "1 / 2"]
    new_user_ex [of "1 / 2"]
  by blast

subsection \<open>C7: one request for each call, and nothing else changes\<close>

text \<open>
  C7. A call of \<open>mixed_load\<close> whose index draws are positions of the pools (the key
  draw, and on the write path the value draw) returns with the user as it was, except
  that exactly one request has been appended to the client's calls. Whatever the draws,
  a call that returns has changed the user in that way only, and no call hands more
  than one request to the client.
\<close>

theorem mixed_load_one_request:
  "(key_draw d < length (key_pool s) \<and>
    (random_random (coin d) < PUT_RATIO cfg \<longrightarrow> value_draw d < length (value_pool s)) \<longrightarrow>
      (\<exists>r. mixed_load cfg s d = Inr (s\<lparr>client := client s @ [r]\<rparr>))) \<and>
   (\<forall>s'. mixed_load cfg s d = Inr s' \<longrightarrow> (\<exists>r. s' = s\<lparr>client := client s @ [r]\<rparr>)) \<and>
   length (emitted cfg s d) \<le> 1"
proof (intro conjI allI impI)
  assume "key_draw d < length (key_pool s) \<and>
    (random_random (coin d) < PUT_RATIO cfg \<longrightarrow> value_draw d < length (value_pool s))"
  then show "\<exists>r. mixed_load cfg s d = Inr (s\<lparr>client := client s @ [r]\<rparr>)"
    by (auto simp: mixed_load_def put_request_Inr_iff get_request_Inr_iff draws_ok_def)
next
  fix s'
  assume "mixed_load cfg s d = Inr s'"
  then show "\<exists>r. s' = s\<lparr>client := client s @ [r]\<rparr>"
    by (auto simp: mixed_load_def put_request_Inr_iff get_request_Inr_iff split: if_splits)
next
  show "length (emitted cfg s d) \<le> 1"
    by (cases "mixed_load cfg s d")
       (auto simp: emitted_def dest: mixed_load_frame(3))
qed

theorem mixed_load_one_request_witness:
  "key_draw ex_low < length (key_pool ex_user) \<and>
   random_random (coin ex_low) < PUT_RATIO (ex_cfg (1 / 2)) \<and>
   value_draw ex_low < length (value_pool ex_user) \<and>
   (\<exists>r. mixed_load (ex_cfg (1 / 2)) ex_user ex_low =
      Inr (ex_user\<lparr>client := client ex_user @ [r]\<rparr>)) \<and>
   length (emitted (ex_cfg (1 / 2)) ex_user ex_low) \<le> 1"
proof -
  have h: "key_draw ex_low < length (key_pool ex_user)"
    "value_draw ex_low < length (value_pool ex_user)"
    "random_random (coin ex_low) < PUT_RATIO (ex_cfg (1 / 2))"
    using draws_ok_ex(1) by (simp_all add: draws_ok_def ex_low_coin ex_cfg_def)
  from mixed_load_one_request [of ex_low ex_user "ex_cfg (1 / 2)"] h show ?thesis
    by blast
qed

subsection \<open>C8: the two request shapes\<close>

text \<open>
  C8. For a user made by the class body, every request of a run is either a POST on
  \<open>/put\<close> whose body has exactly the two fields \<open>key\<close> and \<open>value\<close>, both strings, or
  a GET without a body whose URL has the path \<open>/get\<close> and the single query parameter
  \<open>key\<close>, its value being the selected key of the key pool.
\<close>

theorem request_shapes:
  assumes "new_user cfg en = Inr s"
  shows "\<forall>r \<in> set (sent cfg s ds).
           (req_method r = POST \<and> req_url r = ''/put'' \<and>
            (\<exists>k v. req_json r = Some [(''key'', k), (''value'', v)])) \<or>
           (req_method r = GET \<and> req_json r = None \<and> url_path (req_url r) = ''/get'' \<and>
            (\<exists>k \<in> set (key_pool s).
               req_url r = ''/get?key='' @ k \<and>
               query_params (url_query (req_url r)) = [(''key'', k)]))"
proof (rule sent_all)
  fix s' :: cache_user and d
  assume p: "key_pool s' = key_pool s" "value_pool s' = value_pool s"
  show "\<forall>r \<in> set (emitted cfg s' d).
           (req_method r = POST \<and> req_url r = ''/put'' \<and>
            (\<exists>k v. req_json r = Some [(''key'', k), (''value'', v)])) \<or>
           (req_method r = GET \<and> req_json r = None \<and> url_path (req_url r) = ''/get'' \<and>
            (\<exists>k \<in> set (key_pool s).
               req_url r = ''/get?key='' @ k \<and>
               query_params (url_query (req_url r)) = [(''key'', k)]))"
  proof
    fix r
    assume "r \<in> set (emitted cfg s' d)"
    from emitted_cases [OF this]
    consider (w) "r = \<lparr>req_method = POST, req_url = ''/put'',
                req_json = Some [(''key'', key_pool s' ! key_draw d),
                                 (''value'', value_pool s' ! value_draw d)],
                req_name = ''/put''\<rparr>"
      | (g) "key_draw d < length (key_pool s')"
          "r = \<lparr>req_method = GET, req_url = ''/get?key='' @ key_pool s' ! key_draw d,
                req_json = None, req_name = ''/get''\<rparr>"
      by blast
    then show "(req_method r = POST \<and> req_url r = ''/put'' \<and>
            (\<exists>k v. req_json r = Some [(''key'', k), (''value'', v)])) \<or>
           (req_method r = GET \<and> req_json r = None \<and> url_path (req_url r) = ''/get'' \<and>
            (\<exists>k \<in> set (key_pool s).
               req_url r = ''/get?key='' @ k \<and>
               query_params (url_query (req_url r)) = [(''key'', k)]))"
    proof cases
      case w
      then show ?thesis by simp
    next
      case g
      define k where "k = key_pool s ! key_draw d"
      have kin: "k \<in> set (key_pool s)"
        using g(1) p by (simp add: k_def)
      then have "k \<in> set (make_key_pool cfg en)"
        by (simp add: new_user_Inr(1) [OF assms])
      then have "CHR ''&'' \<notin> set k"
        using key_pool_plain by blast
      then have q: "query_params (''key='' @ k) = [(''key'', k)]"
        by (rule query_params_key)
      have u: "req_url r = ''/get?key='' @ k" "req_method r = GET" "req_json r = None"
        using g(2) p by (simp_all add: k_def)
      have "url_path (req_url r) = ''/get''"
        by (simp only: u url_path_get)
      moreover have "query_params (url_query (req_url r)) = [(''key'', k)]"
        by (simp only: u url_query_get q)
      ultimately show ?thesis
        using u kin by blast
    qed
  qed
qed

theorem request_shapes_witness:
  "new_user (ex_cfg (1 / 2)) ex_entropy = Inr ex_pool_user \<and>
   sent (ex_cfg (1 / 2)) ex_pool_user [ex_low, ex_high] =
     [\<lparr>req_method = POST, req_url = ''/put'',
       req_json = Some [(''key'', ''00000000-0000-4000-8000-000000000001''), (''value'', ''34'')],
       req_name = ''/put''\<rparr>,
      \<lparr>req_method = GET, req_url = ''/get?key=00000000-0000-4000-8000-000000000002'',
       req_json = None, req_name = ''/get''\<rparr>] \<and>
   url_path ''/get?key=00000000-0000-4000-8000-000000000002'' = ''/get'' \<and>
   query_params (url_query ''/get?key=00000000-0000-4000-8000-000000000002'') =
     [(''key'', ''00000000-0000-4000-8000-000000000002'')]"
proof -
  have n: "new_user (ex_cfg (1 / 2)) ex_entropy = Inr ex_pool_user"
    by (rule new_user_ex)
  from request_shapes [OF n, of "[ex_low, ex_high]"]
  show ?thesis
    using n by (simp add: sent_ex_pool)
qed

subsection \<open>C9: the keys of the key pool\<close>

text \<open>
  C9, as stated, fails: the key pool need not be pairwise distinct. When \<open>os.urandom\<close>
  returns the same 16 bytes for two keys, here 16 zero bytes, the two keys are the same
  string; the class body does not compare or replace keys.
\<close>

theorem key_pool_distinct_counterexample:
  "(0::nat) \<noteq> 1 \<and> 0 < KEY_POOL_SIZE default_config \<and> 1 < KEY_POOL_SIZE default_config \<and>
   make_key_pool default_config stuck_entropy ! 0 = ''00000000-0000-4000-8000-000000000000'' \<and>
   make_key_pool default_config stuck_entropy ! 1 = ''00000000-0000-4000-8000-000000000000''"
proof -
  have h: "(0::nat) < KEY_POOL_SIZE default_config" "(1::nat) < KEY_POOL_SIZE default_config"
    by (simp_all add: default_config_def)
  have "UUID_str (uuid4 (urandom16 stuck_entropy i)) = ''00000000-0000-4000-8000-000000000000''"
    for i
    by (simp add: stuck_entropy_def same_bytes_def uuid4_small(1) UUID_str_small(1))
  then show ?thesis
    using h by (simp only: make_key_pool_nth) simp
qed

text \<open>
  C9, amended. The key pool is a list of exactly \<open>KEY_POOL_SIZE\<close> strings (10000 in the
  file). Two of its entries are equal exactly when the random bytes they were made from
  agree on the 122 bits that \<open>uuid4\<close> keeps; so the pool is pairwise distinct exactly
  when the draws differ pairwise on those bits.
\<close>

theorem key_pool_distinct_iff_draws_distinct:
  "length (make_key_pool cfg en) = KEY_POOL_SIZE cfg \<and>
   (\<forall>i < KEY_POOL_SIZE cfg. \<forall>j < KEY_POOL_SIZE cfg.
      (make_key_pool cfg en ! i = make_key_pool cfg en ! j) =
      (kept_bits (urandom16 en i) = kept_bits (urandom16 en j))) \<and>
   (distinct (make_key_pool cfg en) \<longleftrightarrow>
      inj_on (\<lambda>i. kept_bits (urandom16 en i)) {..<KEY_POOL_SIZE cfg}) \<and>
   KEY_POOL_SIZE default_config = 10000"
  by (simp add: length_make_key_pool make_key_pool_eq_iff distinct_make_key_pool
      default_config_def)

theorem key_pool_distinct_iff_draws_distinct_witness:
  "length (make_key_pool (ex_cfg 0) ex_entropy) = 4 \<and>
   (0::nat) < KEY_POOL_SIZE (ex_cfg 0) \<and> (1::nat) < KEY_POOL_SIZE (ex_cfg 0) \<and>
   kept_bits (urandom16 ex_entropy 0) \<noteq> kept_bits (urandom16 ex_entropy 1) \<and>
   make_key_pool (ex_cfg 0) ex_entropy ! 0 \<noteq> make_key_pool (ex_cfg 0) ex_entropy ! 1"
proof -
  have h: "(0::nat) < KEY_POOL_SIZE (ex_cfg 0)" "(1::nat) < KEY_POOL_SIZE (ex_cfg 0)"
    by (simp_all add: ex_cfg_def)
  have len: "KEY_POOL_SIZE (ex_cfg 0) = 4" by (simp add: ex_cfg_def)
  from key_pool_distinct_iff_draws_distinct [of "ex_cfg 0" ex_entropy] h kept_ex len show ?thesis
    by metis
qed

subsection \<open>C10: the request is a function of the pools, the ratio and the draws\<close>

text \<open>
  C10. Two calls of \<open>mixed_load\<close>, by any two users that see the same pools, under the
  same ratio and with the same outcomes of the draws, hand the same requests to
  the client (method, URL, body and name) and raise or return alike; what a user's
  client was called with before has no influence.
\<close>

theorem mixed_load_deterministic:
  assumes "key_pool s1 = key_pool s2" and "value_pool s1 = value_pool s2"
    and "PUT_RATIO cfg1 = PUT_RATIO cfg2"
  shows "emitted cfg1 s1 d = emitted cfg2 s2 d \<and>
         (isl (mixed_load cfg1 s1 d) \<longleftrightarrow> isl (mixed_load cfg2 s2 d))"
  using assms
  by (auto simp: emitted_def mixed_load_def put_request_def get_request_def
      client_post_def client_get_def choice_def getitem_def)

theorem mixed_load_deterministic_witness:
  "key_pool ex_user = key_pool (ex_user\<lparr>client := sent (ex_cfg 1) ex_user [ex_low]\<rparr>) \<and>
   value_pool ex_user = value_pool (ex_user\<lparr>client := sent (ex_cfg 1) ex_user [ex_low]\<rparr>) \<and>
   PUT_RATIO (ex_cfg (1 / 2)) = PUT_RATIO default_config \<and>
   emitted (ex_cfg (1 / 2)) ex_user ex_high =
     emitted default_config (ex_user\<lparr>client := sent (ex_cfg 1) ex_user [ex_low]\<rparr>) ex_high"
proof -
  have h1: "key_pool ex_user = key_pool (ex_user\<lparr>client := sent (ex_cfg 1) ex_user [ex_low]\<rparr>)"
    by simp
  have h2: "value_pool ex_user =
      value_pool (ex_user\<lparr>client := sent (ex_cfg 1) ex_user [ex_low]\<rparr>)"
    by simp
  have h3: "PUT_RATIO (ex_cfg (1 / 2)) = PUT_RATIO default_config"
    by (simp add: ex_cfg_def default_config_def)
  from mixed_load_deterministic [OF h1 h2 h3, of ex_high] h1 h2 h3
  show ?thesis by blast
qed

end
